theory Spec2Isabelle
  imports Main "HOL-Library.Word"
begin

unbundle bit_operations_syntax

section \<open>Bio/bgzf.py: data model\<close>

text \<open>
  Python 2 byte strings are lists of 8-bit words; Python integers are unbounded and are
  modelled by \<open>int\<close>. Every exception the module can raise is a value of
  \<open>py_error\<close>; an operation returns \<open>py_error + result\<close>, with \<open>Inl\<close> the exception.
\<close>

type_synonym byte = "8 word"
type_synonym bytes = "byte list"

datatype py_error =
    ValueError
  | AssertionError
  | NotImplementedError
  | StopIteration
  | TypeError
  | AttributeError
  | KeyError
  | IOError
  | StructError
  | ZlibError

section \<open>Virtual offsets\<close>

text \<open>
  \<open>make_virtual_offset\<close>: the two range checks in the order of the source, then
  \<open>(block_start_offset << 16) | within_block_offset\<close>.
\<close>

definition make_virtual_offset :: "int \<Rightarrow> int \<Rightarrow> py_error + int" where
  "make_virtual_offset block_start_offset within_block_offset =
     (if within_block_offset < 0 \<or> within_block_offset \<ge> 65536 then Inl ValueError
      else if block_start_offset < 0 \<or> block_start_offset \<ge> 281474976710656
        then Inl ValueError
      else Inr (push_bit 16 block_start_offset OR within_block_offset))"

text \<open>
  \<open>split_virtual_offset\<close>: \<open>start = virtual_offset >> 16\<close>, then
  \<open>(start, virtual_offset ^ (start << 16))\<close>.
\<close>

definition split_virtual_offset :: "int \<Rightarrow> int \<times> int" where
  "split_virtual_offset virtual_offset =
     (let start = drop_bit 16 virtual_offset
      in (start, virtual_offset XOR push_bit 16 start))"

subsection \<open>Arithmetic reading of the bit operations\<close>

lemma xor_high_part: "(v::int) XOR push_bit 16 (drop_bit 16 v) = take_bit 16 v"
  by (rule bit_eqI) (auto simp: bit_simps)

lemma or_low_part:
  assumes "0 \<le> u" and "u < 65536"
  shows "push_bit 16 (c::int) OR u = c * 65536 + u"
proof -
  have u: "take_bit 16 u = u"
    using assms by (simp add: take_bit_int_eq_self)
  have "push_bit 16 c OR take_bit 16 u = push_bit 16 c + take_bit 16 u"
    by (rule disjunctive_add_eq_or [symmetric]) (rule bit_eqI, auto simp: bit_simps)
  then show ?thesis
    using u by (simp add: push_bit_eq_mult)
qed

lemma split_virtual_offset_arith:
  "split_virtual_offset v = (v div 65536, v mod 65536)"
  unfolding split_virtual_offset_def Let_def xor_high_part
  by (simp add: drop_bit_eq_div take_bit_eq_mod)

lemma make_virtual_offset_arith:
  "0 \<le> c \<Longrightarrow> c < 281474976710656 \<Longrightarrow> 0 \<le> u \<Longrightarrow> u < 65536 \<Longrightarrow>
     make_virtual_offset c u = Inr (c * 65536 + u)"
  by (simp add: make_virtual_offset_def or_low_part)

subsection \<open>Claims about virtual offsets\<close>

text \<open>
  C5. Inside the domain (\<open>0 \<le> c < 2^48\<close>, \<open>0 \<le> u < 2^16\<close>) \<open>make_virtual_offset\<close>
  succeeds and \<open>split_virtual_offset\<close> gives \<open>(c, u)\<close> back; for every unsigned 64-bit
  \<open>v\<close>, making the offset from the two halves of \<open>split_virtual_offset v\<close> gives \<open>v\<close>
  back; and the offset grows strictly with the block start, and at equal block start
  strictly with the offset inside the block.
\<close>

theorem virtual_offset_laws:
  "(0 \<le> c \<and> c < 2 ^ 48 \<and> 0 \<le> u \<and> u < 2 ^ 16 \<longrightarrow>
      (\<exists>w. make_virtual_offset c u = Inr w \<and> split_virtual_offset w = (c, u)))
   \<and> (0 \<le> v \<and> v < 2 ^ 64 \<longrightarrow>
      (case split_virtual_offset v of (c', u') \<Rightarrow> make_virtual_offset c' u') = Inr v)
   \<and> (0 \<le> c1 \<and> c1 < 2 ^ 48 \<and> 0 \<le> u1 \<and> u1 < 2 ^ 16 \<and>
      0 \<le> c2 \<and> c2 < 2 ^ 48 \<and> 0 \<le> u2 \<and> u2 < 2 ^ 16 \<and>
      (c1 < c2 \<or> (c1 = c2 \<and> u1 < u2)) \<longrightarrow>
      (\<exists>w1 w2. make_virtual_offset c1 u1 = Inr w1 \<and> make_virtual_offset c2 u2 = Inr w2
         \<and> w1 < w2))"
proof (intro conjI impI)
  assume "0 \<le> c \<and> c < 2 ^ 48 \<and> 0 \<le> u \<and> u < 2 ^ 16"
  then have "make_virtual_offset c u = Inr (c * 65536 + u)"
    and "split_virtual_offset (c * 65536 + u) = (c, u)"
    by (simp_all add: make_virtual_offset_arith split_virtual_offset_arith)
  then show "\<exists>w. make_virtual_offset c u = Inr w \<and> split_virtual_offset w = (c, u)"
    by blast
next
  assume a: "0 \<le> v \<and> v < 2 ^ 64"
  have 1: "0 \<le> v div 65536" using a by (simp add: pos_imp_zdiv_nonneg_iff)
  have 2: "v div 65536 < 281474976710656" using a by simp linarith
  have 3: "0 \<le> v mod 65536" and 4: "v mod 65536 < 65536" by simp_all
  show "(case split_virtual_offset v of (c', u') \<Rightarrow> make_virtual_offset c' u') = Inr v"
    using make_virtual_offset_arith [OF 1 2 3 4] by (simp add: split_virtual_offset_arith)
next
  assume a: "0 \<le> c1 \<and> c1 < 2 ^ 48 \<and> 0 \<le> u1 \<and> u1 < 2 ^ 16 \<and>
      0 \<le> c2 \<and> c2 < 2 ^ 48 \<and> 0 \<le> u2 \<and> u2 < 2 ^ 16 \<and>
      (c1 < c2 \<or> (c1 = c2 \<and> u1 < u2))"
  then have m1: "make_virtual_offset c1 u1 = Inr (c1 * 65536 + u1)"
    and m2: "make_virtual_offset c2 u2 = Inr (c2 * 65536 + u2)"
    by (simp_all add: make_virtual_offset_arith)
  have "c1 * 65536 + u1 < c2 * 65536 + u2"
    using a by simp linarith
  with m1 m2 show "\<exists>w1 w2. make_virtual_offset c1 u1 = Inr w1 \<and>
      make_virtual_offset c2 u2 = Inr w2 \<and> w1 < w2"
    by blast
qed

theorem virtual_offset_laws_witness:
  "(\<exists>w. make_virtual_offset 100000 10 = Inr w \<and> split_virtual_offset w = (100000, 10))
   \<and> (case split_virtual_offset 6553600010 of (c', u') \<Rightarrow> make_virtual_offset c' u')
        = Inr 6553600010
   \<and> (\<exists>w1 w2. make_virtual_offset 1 65535 = Inr w1 \<and> make_virtual_offset 2 0 = Inr w2
         \<and> w1 < w2)"
  using virtual_offset_laws [of 100000 10 6553600010 1 65535 2 0] by simp

text \<open>
  C6. \<open>make_virtual_offset c u\<close> raises exactly when \<open>c\<close> is negative or at least
  \<open>2^48\<close>, or \<open>u\<close> is negative or at least \<open>2^16\<close>, and returns \<open>(c << 16) | u\<close>
  otherwise; \<open>make_virtual_offset 0 65536\<close> and \<open>make_virtual_offset (2^48) 0\<close> raise,
  and \<open>make_virtual_offset 100000 10\<close> is \<open>6553600010\<close>.
\<close>

theorem make_virtual_offset_range:
  "make_virtual_offset c u =
     (if c < 0 \<or> 2 ^ 48 \<le> c \<or> u < 0 \<or> 2 ^ 16 \<le> u then Inl ValueError
      else Inr (push_bit 16 c OR u))
   \<and> make_virtual_offset 0 65536 = Inl ValueError
   \<and> make_virtual_offset (2 ^ 48) 0 = Inl ValueError
   \<and> make_virtual_offset 100000 10 = Inr 6553600010"
  by (simp add: make_virtual_offset_def)

theorem make_virtual_offset_range_witness:
  "make_virtual_offset 1 1 = Inr 65537 \<and> make_virtual_offset (-1) 0 = Inl ValueError"
  using make_virtual_offset_range [of 1 1] make_virtual_offset_range [of "-1" 0] by simp

section \<open>Operations with state and exceptions\<close>

datatype ('a, 's) outcome = Return 'a 's | Raise py_error 's

definition obind :: "('a, 's) outcome \<Rightarrow> ('a \<Rightarrow> 's \<Rightarrow> ('b, 's) outcome) \<Rightarrow> ('b, 's) outcome" where
  "obind m f = (case m of Return a s \<Rightarrow> f a s | Raise e s \<Rightarrow> Raise e s)"

definition olift :: "py_error + 'a \<Rightarrow> 's \<Rightarrow> ('a, 's) outcome" where
  "olift r s = (case r of Inl e \<Rightarrow> Raise e s | Inr a \<Rightarrow> Return a s)"

lemma obind_cong [fundef_cong]:
  "m = m' \<Longrightarrow> (\<And>a s. m' = Return a s \<Longrightarrow> f a s = f' a s) \<Longrightarrow> obind m f = obind m' f'"
  by (auto simp: obind_def split: outcome.splits)

lemma obind_simps [simp]:
  "obind (Return a s) f = f a s"
  "obind (Raise e s) f = Raise e s"
  by (simp_all add: obind_def)

lemma olift_simps [simp]:
  "olift (Inl e) s = Raise e s"
  "olift (Inr a) s = Return a s"
  by (simp_all add: olift_def)

record pyfile =
  contents :: bytes
  position :: nat
  closed :: bool
  fmode :: string

definition file_read :: "pyfile \<Rightarrow> int \<Rightarrow> (bytes, pyfile) outcome" where
  "file_read h n =
     (if closed h then Raise ValueError h
      else let rest = drop (position h) (contents h);
               s = (if n < 0 then rest else take (nat n) rest)
           in Return s (h\<lparr>position := position h + length s\<rparr>))"

definition file_tell :: "pyfile \<Rightarrow> (int, pyfile) outcome" where
  "file_tell h = (if closed h then Raise ValueError h else Return (int (position h)) h)"

definition file_seek :: "pyfile \<Rightarrow> int \<Rightarrow> (unit, pyfile) outcome" where
  "file_seek h offset =
     (if closed h then Raise ValueError h
      else if offset < 0 then Raise IOError h
      else Return () (h\<lparr>position := nat offset\<rparr>))"

definition file_write :: "pyfile \<Rightarrow> bytes \<Rightarrow> (unit, pyfile) outcome" where
  "file_write h s =
     (if closed h then Raise ValueError h
      else let pos = position h;
               old = contents h @ replicate (pos - length (contents h)) 0
           in Return () (h\<lparr>contents := take pos old @ s @ drop (pos + length s) old,
                             position := pos + length s\<rparr>))"

definition file_flush :: "pyfile \<Rightarrow> (unit, pyfile) outcome" where
  "file_flush h = (if closed h then Raise ValueError h else Return () h)"

definition file_close :: "pyfile \<Rightarrow> (unit, pyfile) outcome" where
  "file_close h = Return () (h\<lparr>closed := True\<rparr>)"

definition struct_pack_H :: "int \<Rightarrow> py_error + bytes" where
  "struct_pack_H v =
     (if 0 \<le> v \<and> v \<le> 65535 then Inr [word_of_int v, word_of_int (v div 256)]
      else Inl StructError)"

definition struct_pack_I :: "int \<Rightarrow> py_error + bytes" where
  "struct_pack_I v =
     (if 0 \<le> v \<and> v \<le> 4294967295
      then Inr [word_of_int v, word_of_int (v div 256), word_of_int (v div 65536),
                word_of_int (v div 16777216)]
      else Inl StructError)"

definition struct_pack_i :: "int \<Rightarrow> py_error + bytes" where
  "struct_pack_i v =
     (if - 2147483648 \<le> v \<and> v \<le> 2147483647
      then Inr [word_of_int v, word_of_int (v div 256), word_of_int (v div 65536),
                word_of_int (v div 16777216)]
      else Inl StructError)"

definition struct_unpack_H :: "bytes \<Rightarrow> py_error + int" where
  "struct_unpack_H s =
     (case s of [b0, b1] \<Rightarrow> Inr (uint b0 + 256 * uint b1) | _ \<Rightarrow> Inl StructError)"

definition struct_unpack_I :: "bytes \<Rightarrow> py_error + int" where
  "struct_unpack_I s =
     (case s of [b0, b1, b2, b3] \<Rightarrow>
        Inr (uint b0 + 256 * uint b1 + 65536 * uint b2 + 16777216 * uint b3)
      | _ \<Rightarrow> Inl StructError)"

record zlib =
  compress :: "int \<Rightarrow> bytes \<Rightarrow> py_error + bytes"
  decompress :: "bytes \<Rightarrow> py_error + bytes"
  crc32 :: "bytes \<Rightarrow> int"

definition bgzf_magic :: bytes where
  "bgzf_magic = [0x1f, 0x8b, 0x08, 0x04]"

definition bgzf_header :: bytes where
  "bgzf_header = [0x1f, 0x8b, 0x08, 0x04, 0x00, 0x00, 0x00, 0x00,
                  0x00, 0xff, 0x06, 0x00, 0x42, 0x43, 0x02, 0x00]"

definition bgzf_eof :: bytes where
  "bgzf_eof = [0x1f, 0x8b, 0x08, 0x04, 0x00, 0x00, 0x00, 0x00, 0x00, 0xff, 0x06, 0x00,
               0x42, 0x43, 0x02, 0x00, 0x1b, 0x00, 0x03, 0x00, 0x00, 0x00, 0x00, 0x00,
               0x00, 0x00, 0x00, 0x00]"

definition bytes_BC :: bytes where
  "bytes_BC = [0x42, 0x43]"

lemma struct_unpack_H_nonneg: "struct_unpack_H s = Inr v \<Longrightarrow> 0 \<le> v"
  by (auto simp: struct_unpack_H_def split: list.splits)

function read_subfields ::
  "pyfile \<Rightarrow> int \<Rightarrow> int \<Rightarrow> int option \<Rightarrow> (int \<times> int option, pyfile) outcome" where
  "read_subfields handle extra_len x_len block_size =
     (if x_len < extra_len then
        obind (file_read handle 2) (\<lambda>subfield_id handle.
        obind (file_read handle 2) (\<lambda>s handle.
        obind (olift (struct_unpack_H s) handle) (\<lambda>subfield_len handle.
        obind (file_read handle subfield_len) (\<lambda>subfield_data handle.
          if subfield_id = bytes_BC then
            if subfield_len \<noteq> 2 then Raise AssertionError handle
            else if block_size \<noteq> None then Raise AssertionError handle
            else obind (olift (struct_unpack_H subfield_data) handle) (\<lambda>v handle.
              read_subfields handle extra_len (x_len + subfield_len + 4) (Some (v + 1)))
          else read_subfields handle extra_len (x_len + subfield_len + 4) block_size))))
      else Return (x_len, block_size) handle)"
  by pat_completeness auto
termination
  apply (relation "measure (\<lambda>(handle, extra_len, x_len, block_size). nat (extra_len - x_len))")
    apply simp
   apply (auto simp: olift_def split: sum.splits dest: struct_unpack_H_nonneg)
  done

declare read_subfields.simps [simp del]

definition load_bgzf_block :: "zlib \<Rightarrow> pyfile \<Rightarrow> bool \<Rightarrow> (int \<times> bytes, pyfile) outcome" where
  "load_bgzf_block z handle text_mode =
     obind (file_read handle 4) (\<lambda>magic handle.
     if magic = [] then Raise StopIteration handle
     else if magic \<noteq> bgzf_magic then Raise ValueError handle
     else
       obind (file_read handle 4) (\<lambda>gzip_mod_time handle.
       obind (file_read handle 1) (\<lambda>gzip_extra_flags handle.
       obind (file_read handle 1) (\<lambda>gzip_os handle.
       obind (file_read handle 2) (\<lambda>s handle.
       obind (olift (struct_unpack_H s) handle) (\<lambda>extra_len handle.
       obind (read_subfields handle extra_len 0 None) (\<lambda>(x_len, block_size) handle.
         if x_len \<noteq> extra_len then Raise AssertionError handle
         else case block_size of
           None \<Rightarrow> Raise AssertionError handle
         | Some block_size \<Rightarrow>
             let deflate_size = block_size - 1 - extra_len - 19 in
             obind (file_read handle deflate_size) (\<lambda>cdata handle.
             obind (olift (decompress z cdata) handle) (\<lambda>data handle.
             obind (file_read handle 4) (\<lambda>expected_crc handle.
             obind (file_read handle 4) (\<lambda>s handle.
             obind (olift (struct_unpack_I s) handle) (\<lambda>expected_size handle.
               if expected_size \<noteq> int (length data) then Raise AssertionError handle
               else
                 let crc = crc32 z data in
                 obind (olift (if crc < 0 then struct_pack_i crc else struct_pack_I crc) handle)
                   (\<lambda>crc handle.
                     if expected_crc \<noteq> crc then Raise AssertionError handle
                     else Return (block_size, data) handle)))))))))))))"

section \<open>BgzfWriter\<close>

record BgzfWriter =
  w_text :: bool
  w_handle :: pyfile
  w_buffer :: bytes
  compresslevel :: int

definition on_w_handle ::
  "(pyfile \<Rightarrow> ('a, pyfile) outcome) \<Rightarrow> BgzfWriter \<Rightarrow> ('a, BgzfWriter) outcome" where
  "on_w_handle f self =
     (case f (w_handle self) of
        Return a h \<Rightarrow> Return a (self\<lparr>w_handle := h\<rparr>)
      | Raise e h \<Rightarrow> Raise e (self\<lparr>w_handle := h\<rparr>))"

definition write_block :: "zlib \<Rightarrow> BgzfWriter \<Rightarrow> bytes \<Rightarrow> (unit, BgzfWriter) outcome" where
  "write_block z self block =
     obind (on_w_handle file_tell self) (\<lambda>start_offset self.
     if \<not> length block \<le> 65536 then Raise AssertionError self
     else
       obind (olift (compress z (compresslevel self) block) self) (\<lambda>compressed self.
       if \<not> length compressed < 65536 then Raise AssertionError self
       else
         let crc = crc32 z block in
         obind (olift (if crc < 0 then struct_pack_i crc else struct_pack_I crc) self) (\<lambda>crc self.
         obind (olift (struct_pack_H (int (length compressed) + 25)) self) (\<lambda>bsize self.
         obind (olift (struct_pack_I (crc32 z block AND 0xffffffff)) self) (\<lambda>crc self.
         obind (olift (struct_pack_I (int (length block))) self) (\<lambda>uncompressed_length self.
           let data = bgzf_header @ bsize @ compressed @ crc @ uncompressed_length
           in on_w_handle (\<lambda>h. file_write h data) self))))))"

lemma write_block_buffer:
  "write_block z self block = Return u self' \<Longrightarrow> w_buffer self' = w_buffer self"
  by (auto simp: write_block_def obind_def olift_def on_w_handle_def Let_def
           split: outcome.splits sum.splits if_splits)

function write_loop :: "zlib \<Rightarrow> BgzfWriter \<Rightarrow> (unit, BgzfWriter) outcome" where
  "write_loop z self =
     (if length (w_buffer self) \<ge> 65536 then
        obind (write_block z self (take 65536 (w_buffer self))) (\<lambda>_ self.
          write_loop z (self\<lparr>w_buffer := drop 65536 (w_buffer self)\<rparr>))
      else Return () self)"
  by pat_completeness auto
termination
  by (relation "measure (\<lambda>(z, self). length (w_buffer self))")
     (auto dest: write_block_buffer)

declare write_loop.simps [simp del]

definition BgzfWriter_write :: "zlib \<Rightarrow> BgzfWriter \<Rightarrow> bytes \<Rightarrow> (unit, BgzfWriter) outcome" where
  "BgzfWriter_write z self data =
     (let data_len = length data in
      if length (w_buffer self) + data_len < 65536
      then Return () (self\<lparr>w_buffer := w_buffer self @ data\<rparr>)
      else write_loop z (self\<lparr>w_buffer := w_buffer self @ data\<rparr>))"

function flush_loop :: "zlib \<Rightarrow> BgzfWriter \<Rightarrow> (unit, BgzfWriter) outcome" where
  "flush_loop z self =
     (if length (w_buffer self) \<ge> 65536 then
        obind (write_block z self (take 65535 (w_buffer self))) (\<lambda>_ self.
          flush_loop z (self\<lparr>w_buffer := drop 65535 (w_buffer self)\<rparr>))
      else Return () self)"
  by pat_completeness auto
termination
  by (relation "measure (\<lambda>(z, self). length (w_buffer self))")
     (auto dest: write_block_buffer)

declare flush_loop.simps [simp del]

definition BgzfWriter_flush :: "zlib \<Rightarrow> BgzfWriter \<Rightarrow> (unit, BgzfWriter) outcome" where
  "BgzfWriter_flush z self =
     obind (flush_loop z self) (\<lambda>_ self.
     obind (write_block z self (w_buffer self)) (\<lambda>_ self.
     on_w_handle file_flush (self\<lparr>w_buffer := []\<rparr>)))"

definition BgzfWriter_close :: "zlib \<Rightarrow> BgzfWriter \<Rightarrow> (unit, BgzfWriter) outcome" where
  "BgzfWriter_close z self =
     obind (if w_buffer self \<noteq> [] then BgzfWriter_flush z self else Return () self) (\<lambda>_ self.
     obind (on_w_handle (\<lambda>h. file_write h bgzf_eof) self) (\<lambda>_ self.
     obind (on_w_handle file_flush self) (\<lambda>_ self.
     on_w_handle file_close self)))"

definition BgzfWriter_getattr :: "BgzfWriter \<Rightarrow> string \<Rightarrow> py_error + pyfile" where
  "BgzfWriter_getattr self name =
     (if name = ''_handle'' then Inr (w_handle self) else Inl AttributeError)"

definition BgzfWriter_tell :: "BgzfWriter \<Rightarrow> (int, BgzfWriter) outcome" where
  "BgzfWriter_tell self =
     obind (olift (BgzfWriter_getattr self ''handle'') self) (\<lambda>h self.
     obind (case file_tell h of Return p _ \<Rightarrow> Return p self | Raise e _ \<Rightarrow> Raise e self)
       (\<lambda>p self. olift (make_virtual_offset p (int (length (w_buffer self)))) self))"

section \<open>BgzfReader\<close>

definition lower_char :: "char \<Rightarrow> char" where
  "lower_char c =
     (case map_of (zip ''ABCDEFGHIJKLMNOPQRSTUVWXYZ'' ''abcdefghijklmnopqrstuvwxyz'') c of
        Some d \<Rightarrow> d | None \<Rightarrow> c)"

definition lower :: "string \<Rightarrow> string" where
  "lower s = map lower_char s"

definition builtin_open ::
  "(string \<Rightarrow> bytes option) \<Rightarrow> string option \<Rightarrow> string \<Rightarrow> py_error + pyfile" where
  "builtin_open fs filename m =
     (case filename of
        None \<Rightarrow> Inl TypeError
      | Some name \<Rightarrow>
          if CHR ''r'' \<in> set m then
            (case fs name of
               None \<Rightarrow> Inl IOError
             | Some c \<Rightarrow> Inr \<lparr>contents = c, position = 0, closed = False, fmode = m\<rparr>)
          else if CHR ''a'' \<in> set m then
            (let c = (case fs name of None \<Rightarrow> [] | Some c \<Rightarrow> c)
             in Inr \<lparr>contents = c, position = length c, closed = False, fmode = m\<rparr>)
          else Inr \<lparr>contents = [], position = 0, closed = False, fmode = m\<rparr>)"

definition BgzfWriter_init ::
  "(string \<Rightarrow> bytes option) \<Rightarrow> string option \<Rightarrow> string option \<Rightarrow> pyfile option \<Rightarrow> int
     \<Rightarrow> py_error + BgzfWriter" where
  "BgzfWriter_init fs filename mode fileobj level =
     (case (case fileobj of
              Some f \<Rightarrow> if filename \<noteq> None then Inl AssertionError else Inr f
            | None \<Rightarrow>
                (case mode of
                   None \<Rightarrow> Inl AttributeError
                 | Some m \<Rightarrow>
                     if CHR ''w'' \<notin> set (lower m) \<and> CHR ''a'' \<notin> set (lower m)
                     then Inl ValueError
                     else if CHR ''a'' \<in> set (lower m) then builtin_open fs filename ''ab''
                     else builtin_open fs filename ''wb'')) of
        Inl e \<Rightarrow> Inl e
      | Inr handle \<Rightarrow>
          (case mode of
             None \<Rightarrow> Inl AttributeError
           | Some m \<Rightarrow>
               Inr \<lparr>w_text = (CHR ''b'' \<notin> set (lower m)), w_handle = handle,
                    w_buffer = [], compresslevel = level\<rparr>))"

type_synonym cache = "(int \<times> (bytes \<times> int)) list"

record BgzfReader =
  r_text :: bool
  r_newline :: bytes
  r_handle :: pyfile
  max_cache :: int
  r_buffers :: cache
  r_block_start_offset :: "int option"
  r_block_raw_length :: "int option"
  r_buffer :: "bytes option"
  r_within_block_offset :: int

definition on_r_handle ::
  "(pyfile \<Rightarrow> ('a, pyfile) outcome) \<Rightarrow> BgzfReader \<Rightarrow> ('a, BgzfReader) outcome" where
  "on_r_handle f self =
     (case f (r_handle self) of
        Return a h \<Rightarrow> Return a (self\<lparr>r_handle := h\<rparr>)
      | Raise e h \<Rightarrow> Raise e (self\<lparr>r_handle := h\<rparr>))"

fun dict_set :: "'k \<Rightarrow> 'v \<Rightarrow> ('k \<times> 'v) list \<Rightarrow> ('k \<times> 'v) list" where
  "dict_set k v [] = [(k, v)]"
| "dict_set k v ((k', v') # d) = (if k = k' then (k, v) # d else (k', v') # dict_set k v d)"

fun evict :: "BgzfReader \<Rightarrow> cache \<Rightarrow> (unit, BgzfReader) outcome" where
  "evict self [] =
     (if int (length ([] :: cache)) \<ge> max_cache self
      then Raise KeyError (self\<lparr>r_buffers := []\<rparr>)
      else Return () (self\<lparr>r_buffers := []\<rparr>))"
| "evict self (item # d) =
     (if int (length (item # d)) \<ge> max_cache self then evict self d
      else Return () (self\<lparr>r_buffers := item # d\<rparr>))"

definition py_index :: "nat \<Rightarrow> int \<Rightarrow> nat" where
  "py_index n i = (if i < 0 then nat (int n + i) else min (nat i) n)"

definition py_slice :: "'a list \<Rightarrow> int \<Rightarrow> int \<Rightarrow> 'a list" where
  "py_slice xs i j =
     (let a = py_index (length xs) i; b = py_index (length xs) j
      in take (b - a) (drop a xs))"

definition py_slice_from :: "'a list \<Rightarrow> int \<Rightarrow> 'a list" where
  "py_slice_from xs i = drop (py_index (length xs) i) xs"

definition load_block :: "zlib \<Rightarrow> BgzfReader \<Rightarrow> int option \<Rightarrow> (unit, BgzfReader) outcome" where
  "load_block z self start_offset =
     obind (case start_offset of
              Some s \<Rightarrow> Return s self
            | None \<Rightarrow>
                (case (r_block_start_offset self, r_block_raw_length self) of
                   (Some a, Some b) \<Rightarrow> Return (a + b) self
                 | _ \<Rightarrow> Raise TypeError self)) (\<lambda>start_offset self.
     if Some start_offset = r_block_start_offset self
     then Return () (self\<lparr>r_within_block_offset := 0\<rparr>)
     else case map_of (r_buffers self) start_offset of
       Some (buffer, raw_length) \<Rightarrow>
         Return () (self\<lparr>r_buffer := Some buffer, r_block_raw_length := Some raw_length,
                         r_within_block_offset := 0,
                         r_block_start_offset := Some start_offset\<rparr>)
     | None \<Rightarrow>
         obind (evict self (r_buffers self)) (\<lambda>_ self.
         obind (on_r_handle (\<lambda>h. file_seek h start_offset) self) (\<lambda>_ self.
         obind (on_r_handle file_tell self) (\<lambda>pos self.
         obind (case load_bgzf_block z (r_handle self) (r_text self) of
                  Return (block_size, buffer) h \<Rightarrow>
                    Return block_size
                      (self\<lparr>r_block_start_offset := Some pos, r_handle := h,
                            r_buffer := Some buffer\<rparr>)
                | Raise e h \<Rightarrow>
                    if e = StopIteration
                    then Return 0 (self\<lparr>r_block_start_offset := Some pos, r_handle := h,
                                        r_buffer := Some []\<rparr>)
                    else Raise e (self\<lparr>r_block_start_offset := Some pos, r_handle := h\<rparr>))
           (\<lambda>block_size self.
              Return () (self\<lparr>r_within_block_offset := 0,
                              r_block_raw_length := Some block_size,
                              r_buffers := dict_set pos (the (r_buffer self), block_size)
                                             (r_buffers self)\<rparr>))))))"

definition BgzfReader_tell :: "BgzfReader \<Rightarrow> (int, BgzfReader) outcome" where
  "BgzfReader_tell self =
     (if 0 < r_within_block_offset self then
        (case r_buffer self of
           None \<Rightarrow> Raise TypeError self
         | Some buffer \<Rightarrow>
             if r_within_block_offset self = int (length buffer) then
               (case (r_block_start_offset self, r_block_raw_length self) of
                  (Some a, Some b) \<Rightarrow> Return (push_bit 16 (a + b)) self
                | _ \<Rightarrow> Raise TypeError self)
             else
               (case r_block_start_offset self of
                  Some a \<Rightarrow> Return (push_bit 16 a OR r_within_block_offset self) self
                | None \<Rightarrow> Raise TypeError self))
      else
        (case r_block_start_offset self of
           Some a \<Rightarrow> Return (push_bit 16 a OR r_within_block_offset self) self
         | None \<Rightarrow> Raise TypeError self))"

definition BgzfReader_seek :: "zlib \<Rightarrow> BgzfReader \<Rightarrow> int \<Rightarrow> (int, BgzfReader) outcome" where
  "BgzfReader_seek z self virtual_offset =
     (let start_offset = drop_bit 16 virtual_offset;
          within_block = virtual_offset XOR push_bit 16 start_offset
      in
      obind (if Some start_offset \<noteq> r_block_start_offset self then
               obind (load_block z self (Some start_offset)) (\<lambda>_ self.
                 if Some start_offset \<noteq> r_block_start_offset self
                 then Raise AssertionError self else Return () self)
             else Return () self) (\<lambda>_ self.
      case r_buffer self of
        None \<Rightarrow> Raise TypeError self
      | Some buffer \<Rightarrow>
          if within_block \<ge> int (length buffer)
             \<and> \<not> (within_block = 0 \<and> length buffer = 0)
          then Raise ValueError self
          else Return virtual_offset (self\<lparr>r_within_block_offset := within_block\<rparr>)))"

lemma load_block_within:
  "load_block z self start = Return u self' \<Longrightarrow> r_within_block_offset self' = 0"
  by (auto simp: load_block_def obind_def split: outcome.splits option.splits if_splits prod.splits)

function BgzfReader_read :: "zlib \<Rightarrow> BgzfReader \<Rightarrow> int \<Rightarrow> (bytes, BgzfReader) outcome" where
  "BgzfReader_read z self sz =
     (if sz < 0 then Raise NotImplementedError self
      else if sz = 0 then Return [] self
      else case r_buffer self of
        None \<Rightarrow> Raise TypeError self
      | Some buffer \<Rightarrow>
          if r_within_block_offset self + sz \<le> int (length buffer) then
            (let data = py_slice buffer (r_within_block_offset self)
                          (r_within_block_offset self + sz);
                 self = self\<lparr>r_within_block_offset := r_within_block_offset self + sz\<rparr>
             in if data = [] then Raise AssertionError self else Return data self)
          else
            (let data = py_slice_from buffer (r_within_block_offset self);
                 sz = sz - int (length data)
             in obind (load_block z self None) (\<lambda>_ self.
                  if r_buffer self = None \<or> r_buffer self = Some [] then Return data self
                  else if sz \<noteq> 0 then
                    obind (BgzfReader_read z self sz) (\<lambda>rest self. Return (data @ rest) self)
                  else Return data self)))"
  by pat_completeness auto
termination
  apply (relation "measure (\<lambda>(z, self, sz).
      2 * nat sz + (if py_slice_from (the (r_buffer self)) (r_within_block_offset self) = [] then 1 else 0))")
   apply simp
  apply (auto simp: py_slice_from_def py_index_def dest!: load_block_within)
  done

declare BgzfReader_read.simps [simp del]

definition BgzfReader_init ::
  "zlib \<Rightarrow> (string \<Rightarrow> bytes option) \<Rightarrow> string option \<Rightarrow> string option \<Rightarrow> pyfile option \<Rightarrow> int
     \<Rightarrow> py_error + BgzfReader" where
  "BgzfReader_init z fs filename mode fileobj max_cache' =
     (if max_cache' < 1 then Inl ValueError
      else
        case (case fileobj of
                Some f \<Rightarrow>
                  if \<not> (filename = None \<and> mode = None) then Inl AssertionError
                  else if CHR ''b'' \<notin> set (lower (fmode f)) then Inl AssertionError
                  else Inr f
              | None \<Rightarrow>
                  (case mode of
                     None \<Rightarrow> Inl AttributeError
                   | Some m \<Rightarrow>
                       if CHR ''w'' \<in> set (lower m) \<or> CHR ''a'' \<in> set (lower m)
                       then Inl ValueError
                       else builtin_open fs filename ''rb'')) of
          Inl e \<Rightarrow> Inl e
        | Inr handle \<Rightarrow>
            (case mode of
               None \<Rightarrow> Inl AttributeError
             | Some m \<Rightarrow>
                 let self = \<lparr>r_text = (CHR ''b'' \<notin> set (lower m)), r_newline = [0x0a],
                             r_handle = handle, max_cache = max_cache', r_buffers = [],
                             r_block_start_offset = None, r_block_raw_length = None,
                             r_buffer = None, r_within_block_offset = 0\<rparr>
                 in case obind (on_r_handle file_tell self)
                           (\<lambda>pos self. load_block z self (Some pos)) of
                      Return _ self \<Rightarrow> Inr self
                    | Raise e _ \<Rightarrow> Inl e))"

definition BgzfReader_close :: "BgzfReader \<Rightarrow> (unit, BgzfReader) outcome" where
  "BgzfReader_close self =
     obind (on_r_handle file_close self) (\<lambda>_ self.
       Return () (self\<lparr>r_buffer := None, r_block_start_offset := None\<rparr>))"

lemma file_read_Return:
  "file_read h n = Return s h' \<Longrightarrow>
     contents h' = contents h \<and> closed h' = closed h \<and> fmode h' = fmode h
     \<and> position h' = position h + length s
     \<and> position h + length s \<le> max (position h) (length (contents h))
     \<and> \<not> closed h"
  by (auto simp: file_read_def Let_def split: if_splits)

section \<open>A concrete zlib: stored DEFLATE blocks and CRC-32\<close>

definition crc32_step :: "32 word \<Rightarrow> 32 word" where
  "crc32_step c = (if bit c 0 then drop_bit 1 c XOR 0xEDB88320 else drop_bit 1 c)"

definition crc32_byte :: "32 word \<Rightarrow> byte \<Rightarrow> 32 word" where
  "crc32_byte c b =
     crc32_step (crc32_step (crc32_step (crc32_step (crc32_step (crc32_step (crc32_step
       (crc32_step (c XOR ucast b))))))))"

definition crc32_signed :: "bytes \<Rightarrow> int" where
  "crc32_signed s = sint (NOT (foldl crc32_byte (NOT 0) s))"

function stored_deflate :: "bytes \<Rightarrow> bytes" where
  "stored_deflate s =
     (if length s \<le> 65535
      then [1, word_of_nat (length s), word_of_nat (length s div 256),
            word_of_nat (65535 - length s), word_of_nat ((65535 - length s) div 256)] @ s
      else [0, 0xff, 0xff, 0, 0] @ take 65535 s @ stored_deflate (drop 65535 s))"
  by pat_completeness auto
termination
  by (relation "measure length") auto

declare stored_deflate.simps [simp del]

function stored_inflate :: "bytes \<Rightarrow> py_error + bytes" where
  "stored_inflate c =
     (case c of
        hdr # l0 # l1 # n0 # n1 # rest \<Rightarrow>
          (let len = unat l0 + 256 * unat l1; nlen = unat n0 + 256 * unat n1 in
           if hdr AND 6 \<noteq> 0 \<or> len + nlen \<noteq> 65535 \<or> length rest < len then Inl ZlibError
           else if hdr AND 1 = 1 then Inr (take len rest)
           else (case stored_inflate (drop len rest) of
                   Inl e \<Rightarrow> Inl e
                 | Inr tail \<Rightarrow> Inr (take len rest @ tail)))
      | _ \<Rightarrow> if c = [3, 0] then Inr [] else Inl ZlibError)"
  by pat_completeness auto
termination
  by (relation "measure length") auto

declare stored_inflate.simps [simp del]

definition stored_zlib :: zlib where
  "stored_zlib = \<lparr>compress = (\<lambda>level s. Inr (stored_deflate s)),
                   decompress = stored_inflate,
                   crc32 = crc32_signed\<rparr>"

section \<open>An example file\<close>

text \<open>
  Two one-block BGZF files written with stored DEFLATE blocks, one after the other (as
  \<open>cat a.bgz b.bgz\<close> gives): the block of \<open>"A"\<close> at offset 0, an empty end-of-file
  block at 32, the block of \<open>"B"\<close> at 60 and an empty end-of-file block at 92.
\<close>

definition example_bgzf :: bytes where
  "example_bgzf =
     [0x1f, 0x8b, 0x08, 0x04, 0, 0, 0, 0, 0, 0xff, 0x06, 0, 0x42, 0x43, 0x02, 0, 0x1f, 0,
      0x01, 0x01, 0, 0xfe, 0xff, 0x41, 0x8b, 0x9e, 0xd9, 0xd3, 0x01, 0, 0, 0,
      0x1f, 0x8b, 0x08, 0x04, 0, 0, 0, 0, 0, 0xff, 0x06, 0, 0x42, 0x43, 0x02, 0, 0x1b, 0,
      0x03, 0, 0, 0, 0, 0, 0, 0, 0, 0,
      0x1f, 0x8b, 0x08, 0x04, 0, 0, 0, 0, 0, 0xff, 0x06, 0, 0x42, 0x43, 0x02, 0, 0x1f, 0,
      0x01, 0x01, 0, 0xfe, 0xff, 0x42, 0x31, 0xcf, 0xd0, 0x4a, 0x01, 0, 0, 0,
      0x1f, 0x8b, 0x08, 0x04, 0, 0, 0, 0, 0, 0xff, 0x06, 0, 0x42, 0x43, 0x02, 0, 0x1b, 0,
      0x03, 0, 0, 0, 0, 0, 0, 0, 0, 0]"

definition example_fs :: "string \<Rightarrow> bytes option" where
  "example_fs name =
     (if name = ''example.bgz'' then Some example_bgzf
      else if name = ''empty.bgz'' then Some []
      else None)"

definition example_handle :: "nat \<Rightarrow> pyfile" where
  "example_handle p = \<lparr>contents = example_bgzf, position = p, closed = False, fmode = ''rb''\<rparr>"

lemmas eval_simps =
  load_bgzf_block_def read_subfields.simps file_read_def file_seek_def file_tell_def
  struct_unpack_H_def struct_unpack_I_def struct_pack_I_def struct_pack_i_def
  bgzf_magic_def bytes_BC_def stored_zlib_def stored_inflate.simps
  crc32_signed_def crc32_byte_def crc32_step_def Let_def

lemma example_block_0:
  "load_bgzf_block stored_zlib (example_handle 0) False = Return (32, [0x41]) (example_handle 32)"
  by (simp add: example_handle_def example_bgzf_def eval_simps)

lemma example_block_32:
  "load_bgzf_block stored_zlib (example_handle 32) False = Return (28, []) (example_handle 60)"
  by (simp add: example_handle_def example_bgzf_def eval_simps)

lemma example_block_60:
  "load_bgzf_block stored_zlib (example_handle 60) False = Return (32, [0x42]) (example_handle 92)"
  by (simp add: example_handle_def example_bgzf_def eval_simps)

lemma example_block_92:
  "load_bgzf_block stored_zlib (example_handle 92) False = Return (28, []) (example_handle 120)"
  by (simp add: example_handle_def example_bgzf_def eval_simps)

lemma example_block_120:
  "load_bgzf_block stored_zlib (example_handle 120) False = Raise StopIteration (example_handle 120)"
  by (simp add: example_handle_def example_bgzf_def eval_simps)

section \<open>Reading moves forward in the file\<close>

lemma obind_ReturnE:
  assumes "obind m f = Return r s'"
  obtains a s where "m = Return a s" and "f a s = Return r s'"
  using assms by (cases m) (simp_all add: obind_def)

lemma olift_ReturnE:
  assumes "olift x s = Return a s'"
  obtains "x = Inr a" and "s' = s"
  using assms by (cases x) simp_all

definition advances :: "pyfile \<Rightarrow> pyfile \<Rightarrow> bool" where
  "advances h h' \<longleftrightarrow> contents h' = contents h \<and> position h \<le> position h'"

lemma advances_refl [simp]: "advances h h"
  by (simp add: advances_def)

lemma advances_trans: "advances a b \<Longrightarrow> advances b c \<Longrightarrow> advances a c"
  by (auto simp: advances_def)

lemma file_read_advances: "file_read h n = Return s h' \<Longrightarrow> advances h h'"
  by (auto simp: file_read_def advances_def Let_def split: if_splits)

lemma read_subfields_advances:
  "read_subfields h e x b = Return r h' \<Longrightarrow> advances h h'"
proof (induction h e x b arbitrary: r h' rule: read_subfields.induct)
  case (1 handle extra_len x_len block_size)
  show ?case
  proof (cases "x_len < extra_len")
    case False
    with "1.prems" show ?thesis
      by (subst (asm) read_subfields.simps) simp
  next
    case True
    from "1.prems" have "obind (file_read handle 2) (\<lambda>subfield_id handle.
        obind (file_read handle 2) (\<lambda>s handle.
        obind (olift (struct_unpack_H s) handle) (\<lambda>subfield_len handle.
        obind (file_read handle subfield_len) (\<lambda>subfield_data handle.
          if subfield_id = bytes_BC then
            if subfield_len \<noteq> 2 then Raise AssertionError handle
            else if block_size \<noteq> None then Raise AssertionError handle
            else obind (olift (struct_unpack_H subfield_data) handle) (\<lambda>v handle.
              read_subfields handle extra_len (x_len + subfield_len + 4) (Some (v + 1)))
          else read_subfields handle extra_len (x_len + subfield_len + 4) block_size))))
       = Return r h'"
      using True by (subst (asm) read_subfields.simps) simp
    then obtain sid h1 s h2 slen h2' sdata h3 where
      r1: "file_read handle 2 = Return sid h1" and
      r2: "file_read h1 2 = Return s h2" and
      u: "olift (struct_unpack_H s) h2 = Return slen h2'" and
      r3: "file_read h2' slen = Return sdata h3" and
      rest: "(if sid = bytes_BC then
            if slen \<noteq> 2 then Raise AssertionError h3
            else if block_size \<noteq> None then Raise AssertionError h3
            else obind (olift (struct_unpack_H sdata) h3) (\<lambda>v handle.
              read_subfields handle extra_len (x_len + slen + 4) (Some (v + 1)))
          else read_subfields h3 extra_len (x_len + slen + 4) block_size) = Return r h'"
      by (elim obind_ReturnE) 
    have h2': "h2' = h2" using u by (rule olift_ReturnE)
    have p3: "advances handle h3"
      using file_read_advances [OF r1] file_read_advances [OF r2] file_read_advances [OF r3] h2'
      by (auto intro: advances_trans)
    show ?thesis
    proof (cases "sid = bytes_BC")
      case False
      with rest have "read_subfields h3 extra_len (x_len + slen + 4) block_size = Return r h'"
        by simp
      from "1.IH"(2) [OF True r1 r2 u r3 False this] p3 show ?thesis
        by (rule advances_trans [rotated])
    next
      case BC: True
      with rest have c1: "\<not> slen \<noteq> 2" and c2: "\<not> block_size \<noteq> None"
        by (auto split: if_splits)
      with rest BC obtain v h4 where
        v: "olift (struct_unpack_H sdata) h3 = Return v h4" and
        rr: "read_subfields h4 extra_len (x_len + slen + 4) (Some (v + 1)) = Return r h'"
        by (auto elim: obind_ReturnE)
      have "h4 = h3" using v by (rule olift_ReturnE)
      with "1.IH"(1) [OF True r1 r2 u r3 BC c1 c2 v rr] p3 show ?thesis
        by (auto intro: advances_trans)
    qed
  qed
qed

definition example_reader :: BgzfReader where
  "example_reader =
     \<lparr>r_text = False, r_newline = [0x0a], r_handle = example_handle 32, max_cache = 100,
      r_buffers = [(0, ([0x41], 32))], r_block_start_offset = Some 0,
      r_block_raw_length = Some 32, r_buffer = Some [0x41], r_within_block_offset = 0\<rparr>"

lemma example_handle_simps [simp]:
  "(example_handle p)\<lparr>position := q\<rparr> = example_handle q"
  "position (example_handle p) = p"
  "closed (example_handle p) = False"
  by (simp_all add: example_handle_def)

lemma example_reader_init:
  "BgzfReader_init stored_zlib example_fs (Some ''example.bgz'') (Some ''rb'') None 100
     = Inr example_reader"
proof -
  have h: "\<lparr>contents = example_bgzf, position = 0, closed = False, fmode = ''rb''\<rparr>
      = example_handle 0"
    by (simp add: example_handle_def)
  show ?thesis
    by (simp add: BgzfReader_init_def builtin_open_def example_fs_def lower_def
        lower_char_def h on_r_handle_def file_tell_def file_seek_def load_block_def
        example_block_0 example_reader_def)
qed

section \<open>Claims about the writer's and the reader's positions\<close>

text \<open>
  C8. The writer's \<open>tell\<close> is meant to return
  \<open>make_virtual_offset (handle.tell()) (len buffer)\<close>. The source reads the attribute
  \<open>handle\<close>, which no \<open>BgzfWriter\<close> has (the file is kept in \<open>_handle\<close>), so every
  call raises \<open>AttributeError\<close> and leaves the writer unchanged.
\<close>

theorem BgzfWriter_tell_raises:
  "BgzfWriter_tell self = Raise AttributeError self"
  by (simp add: BgzfWriter_tell_def BgzfWriter_getattr_def)

theorem BgzfWriter_tell_raises_witness:
  "BgzfWriter_tell \<lparr>w_text = False, w_handle = example_handle 0, w_buffer = [0x41],
      compresslevel = 6\<rparr>
    = Raise AttributeError \<lparr>w_text = False, w_handle = example_handle 0, w_buffer = [0x41],
      compresslevel = 6\<rparr>"
  using BgzfWriter_tell_raises
    [of "\<lparr>w_text = False, w_handle = example_handle 0, w_buffer = [0x41], compresslevel = 6\<rparr>"]
  by simp

text \<open>
  C9. Constructing a reader from an already opened file (\<open>fileobj\<close>) never succeeds:
  the constructor asserts that \<open>filename\<close> and \<open>mode\<close> are both \<open>None\<close> and then
  calls \<open>mode.lower()\<close>, so it raises \<open>AssertionError\<close> when a mode is given (the
  default is \<open>"r"\<close>) and \<open>AttributeError\<close> when it is \<open>None\<close>.
\<close>

theorem BgzfReader_init_fileobj_raises:
  "BgzfReader_init z fs filename mode (Some f) mc =
     (if mc < 1 then Inl ValueError
      else if \<not> (filename = None \<and> mode = None) then Inl AssertionError
      else if CHR ''b'' \<notin> set (lower (fmode f)) then Inl AssertionError
      else Inl AttributeError)"
  by (auto simp: BgzfReader_init_def split: option.splits)

theorem BgzfReader_init_fileobj_raises_witness:
  "BgzfReader_init stored_zlib example_fs None (Some ''r'') (Some (example_handle 0)) 100
     = Inl AssertionError
   \<and> BgzfReader_init stored_zlib example_fs None None (Some (example_handle 0)) 100
     = Inl AttributeError"
  using BgzfReader_init_fileobj_raises
      [of stored_zlib example_fs None "Some ''r''" "example_handle 0" 100]
    BgzfReader_init_fileobj_raises
      [of stored_zlib example_fs None None "example_handle 0" 100]
  by (simp add: example_handle_def lower_def lower_char_def)

lemma load_block_empty_source:
  assumes "contents (r_handle self) = []" and "\<not> closed (r_handle self)"
    and "r_block_start_offset self = None" and "r_buffers self = []" and "1 \<le> max_cache self"
  shows "load_block z self (Some (int p)) =
     Return () (self\<lparr>r_handle := (r_handle self)\<lparr>position := p\<rparr>,
                    r_block_start_offset := Some (int p), r_buffer := Some [],
                    r_within_block_offset := 0, r_block_raw_length := Some 0,
                    r_buffers := [(int p, ([], 0))]\<rparr>)"
  using assms
  by (simp add: load_block_def on_r_handle_def file_seek_def file_tell_def
      load_bgzf_block_def file_read_def)

lemma read_at_eof_block:
  assumes "r_buffer self = Some []" and "r_block_start_offset self = Some a"
    and "r_block_raw_length self = Some 0" and "r_within_block_offset self = 0" and "0 \<le> n"
  shows "BgzfReader_read z self n = Return [] self"
proof (cases "n = 0")
  case True
  then show ?thesis by (simp add: BgzfReader_read.simps)
next
  case False
  with assms have "0 < n" by simp
  then show ?thesis
    using assms
    by (subst BgzfReader_read.simps) (simp add: py_slice_from_def py_index_def load_block_def)
qed

text \<open>
  C10. A reader opened on a file of zero bytes is constructed without error: the first
  block load turns the end of the file into an empty buffer with raw length 0 and block
  start equal to the position of the file, which is 0; \<open>tell\<close> then returns 0 and
  \<open>read n\<close> returns the empty string for every \<open>n \<ge> 0\<close>, leaving the reader as it
  was.
\<close>

theorem reader_on_empty_source:
  assumes "fs name = Some []"
    and "CHR ''w'' \<notin> set (lower m)" and "CHR ''a'' \<notin> set (lower m)"
    and "1 \<le> mc"
  shows "\<exists>self. BgzfReader_init z fs (Some name) (Some m) None mc = Inr self
      \<and> r_buffer self = Some [] \<and> r_block_raw_length self = Some 0
      \<and> r_block_start_offset self = Some (int (position (r_handle self)))
      \<and> position (r_handle self) = 0
      \<and> BgzfReader_tell self = Return 0 self
      \<and> (\<forall>n\<ge>0. BgzfReader_read z self n = Return [] self)"
proof -
  let ?h = "\<lparr>contents = [], position = 0, closed = False, fmode = ''rb''\<rparr>"
  let ?s0 = "\<lparr>r_text = (CHR ''b'' \<notin> set (lower m)), r_newline = [0x0a],
              r_handle = ?h, max_cache = mc, r_buffers = [],
              r_block_start_offset = None, r_block_raw_length = None,
              r_buffer = None, r_within_block_offset = 0\<rparr>"
  let ?s1 = "?s0\<lparr>r_handle := (r_handle ?s0)\<lparr>position := 0\<rparr>,
                    r_block_start_offset := Some (int 0), r_buffer := Some [],
                    r_within_block_offset := 0, r_block_raw_length := Some 0,
                    r_buffers := [(int 0, ([], 0))]\<rparr>"
  have lb: "load_block z ?s0 (Some (int 0)) = Return () ?s1"
    using assms(4) by (intro load_block_empty_source) simp_all
  have init: "BgzfReader_init z fs (Some name) (Some m) None mc = Inr ?s1"
    using assms lb
    by (simp add: BgzfReader_init_def builtin_open_def on_r_handle_def file_tell_def)
  have tell: "BgzfReader_tell ?s1 = Return 0 ?s1"
    by (simp add: BgzfReader_tell_def)
  have rd: "\<forall>n\<ge>0. BgzfReader_read z ?s1 n = Return [] ?s1"
    by (intro allI impI read_at_eof_block [where a = 0]) simp_all
  show ?thesis
    using init tell rd by (intro exI [of _ ?s1]) simp
qed

theorem reader_on_empty_source_witness:
  "\<exists>self. BgzfReader_init stored_zlib example_fs (Some ''empty.bgz'') (Some ''rb'') None 100
        = Inr self
      \<and> r_buffer self = Some [] \<and> r_block_raw_length self = Some 0
      \<and> r_block_start_offset self = Some 0
      \<and> BgzfReader_tell self = Return 0 self
      \<and> BgzfReader_read stored_zlib self 10 = Return [] self"
proof -
  have "example_fs ''empty.bgz'' = Some []"
    by (simp add: example_fs_def)
  moreover have "CHR ''w'' \<notin> set (lower ''rb'')" and "CHR ''a'' \<notin> set (lower ''rb'')"
    by (simp_all add: lower_def lower_char_def)
  ultimately obtain self where
    "BgzfReader_init stored_zlib example_fs (Some ''empty.bgz'') (Some ''rb'') None 100 = Inr self"
    "r_buffer self = Some []" "r_block_raw_length self = Some 0"
    "r_block_start_offset self = Some (int (position (r_handle self)))"
    "position (r_handle self) = 0"
    "BgzfReader_tell self = Return 0 self"
    "\<forall>n\<ge>0. BgzfReader_read stored_zlib self n = Return [] self"
    using reader_on_empty_source [of example_fs "''empty.bgz''" "''rb''" 100 stored_zlib]
    by auto
  then show ?thesis
    by (intro exI [of _ self]) simp
qed

text \<open>
  C2. With a block loaded, \<open>tell\<close> returns \<open>(block_start + block_raw_length) << 16\<close>
  when the offset inside the block is positive and equal to the length of the buffer, and
  \<open>(block_start << 16) | within_block\<close> otherwise. In particular a \<open>read\<close> that
  ends exactly at the end of the block returns the rest of the block without loading the
  next one, and \<open>tell\<close> then gives the start of the next block with offset 0.
\<close>

theorem BgzfReader_tell_canonical:
  assumes "r_buffer self = Some buffer"
    and "r_block_start_offset self = Some block_start"
    and "r_block_raw_length self = Some block_raw_length"
  shows "BgzfReader_tell self =
      Return (if 0 < r_within_block_offset self
                 \<and> r_within_block_offset self = int (length buffer)
              then push_bit 16 (block_start + block_raw_length)
              else push_bit 16 block_start OR r_within_block_offset self) self
    \<and> (0 \<le> r_within_block_offset self \<and> 0 < n
         \<and> r_within_block_offset self + n = int (length buffer) \<longrightarrow>
       BgzfReader_read z self n =
         Return (drop (nat (r_within_block_offset self)) buffer)
           (self\<lparr>r_within_block_offset := int (length buffer)\<rparr>)
       \<and> BgzfReader_tell (self\<lparr>r_within_block_offset := int (length buffer)\<rparr>) =
         Return (push_bit 16 (block_start + block_raw_length))
           (self\<lparr>r_within_block_offset := int (length buffer)\<rparr>))"
  using assms
  by (auto simp: BgzfReader_tell_def BgzfReader_read.simps py_slice_def py_index_def Let_def)

theorem BgzfReader_tell_canonical_witness:
  "BgzfReader_tell example_reader = Return 0 example_reader
   \<and> BgzfReader_read stored_zlib example_reader 1
       = Return [0x41] (example_reader\<lparr>r_within_block_offset := 1\<rparr>)
   \<and> BgzfReader_tell (example_reader\<lparr>r_within_block_offset := 1\<rparr>)
       = Return 2097152 (example_reader\<lparr>r_within_block_offset := 1\<rparr>)"
  using BgzfReader_tell_canonical [of example_reader "[0x41]" 0 32 1 stored_zlib]
  by (simp add: example_reader_def)

section \<open>Claims about read and seek\<close>

lemmas reader_eval_simps =
  BgzfReader_read.simps load_block_def on_r_handle_def file_seek_def file_tell_def
  py_slice_def py_slice_from_def py_index_def Let_def

text \<open>
  C4. The claim is that \<open>read\<close> continues over an empty block that is not the end of
  the stream, so that a short result only occurs at the true end. The source returns as
  soon as a freshly loaded block is empty (\<open>if not self._buffer: return data  #EOF\<close>).
  On the example file, \<open>read 2\<close> from the start returns only \<open>"A"\<close>: it stops at
  the empty block at offset 32, although the block at offset 60 holds \<open>"B"\<close>, which
  the next \<open>read 2\<close> returns.
\<close>

theorem read_short_at_empty_block:
  "\<exists>r1 r2.
     BgzfReader_init stored_zlib example_fs (Some ''example.bgz'') (Some ''rb'') None 100
       = Inr example_reader
     \<and> BgzfReader_read stored_zlib example_reader 2 = Return [0x41] r1
     \<and> r_block_start_offset r1 = Some 32 \<and> r_buffer r1 = Some []
     \<and> BgzfReader_read stored_zlib r1 2 = Return [0x42] r2"
proof -
  let ?r1 = "example_reader\<lparr>r_handle := example_handle 60,
      r_buffers := [(0, ([0x41], 32)), (32, ([], 28))], r_block_start_offset := Some 32,
      r_block_raw_length := Some 28, r_buffer := Some []\<rparr>"
  let ?r2 = "?r1\<lparr>r_handle := example_handle 120,
      r_buffers := [(0, ([0x41], 32)), (32, ([], 28)), (60, ([0x42], 32)), (92, ([], 28))],
      r_block_start_offset := Some 92\<rparr>"
  have 1: "BgzfReader_read stored_zlib example_reader 2 = Return [0x41] ?r1"
    by (simp add: reader_eval_simps example_reader_def example_block_32)
  have 2: "BgzfReader_read stored_zlib ?r1 2 = Return [0x42] ?r2"
    by (simp add: reader_eval_simps example_reader_def example_block_60 example_block_92)
  show ?thesis
    using example_reader_init 1 2
    by (intro exI [of _ ?r1] exI [of _ ?r2]) (simp add: example_reader_def)
qed

theorem read_short_at_empty_block_witness:
  "\<exists>r1. BgzfReader_read stored_zlib example_reader 2 = Return [0x41] r1
      \<and> r_buffer r1 = Some []"
  using read_short_at_empty_block by blast

lemma load_block_start:
  "load_block z self (Some coff) = Return u s \<Longrightarrow> r_block_start_offset s = Some coff"
  by (auto simp: load_block_def on_r_handle_def file_seek_def file_tell_def
           elim!: obind_ReturnE split: if_splits option.splits outcome.splits prod.splits)

text \<open>
  C3, as the code has it. Let \<open>v\<close> split into \<open>(coff, uoff)\<close> and let \<open>s\<close> be the
  reader with the block at \<open>coff\<close> loaded (the reader itself when that block is the
  current one). Then \<open>seek v\<close> returns \<open>v\<close> and sets the offset inside the block to
  \<open>uoff\<close> when \<open>uoff < len buffer\<close>, or when \<open>uoff = 0\<close> and the buffer is empty;
  otherwise, that is exactly when \<open>uoff \<ge> len buffer\<close> and not both are 0, it raises
  \<open>ValueError\<close>. The bound is strict: the end of a non-empty block is not a valid
  target (its canonical offset is the start of the next block).
\<close>

theorem seek_within_block:
  assumes "split_virtual_offset v = (coff, uoff)"
    and "(if Some coff \<noteq> r_block_start_offset self then load_block z self (Some coff)
          else Return () self) = Return () s"
    and "r_buffer s = Some buffer"
  shows "BgzfReader_seek z self v =
      (if uoff < int (length buffer) \<or> (uoff = 0 \<and> length buffer = 0)
       then Return v (s\<lparr>r_within_block_offset := uoff\<rparr>)
       else Raise ValueError s)
    \<and> r_block_start_offset s = Some coff"
proof -
  have c: "drop_bit 16 v = coff" and u: "v XOR push_bit 16 coff = uoff"
    using assms(1) by (auto simp: split_virtual_offset_def Let_def)
  have st: "r_block_start_offset s = Some coff"
    using assms(2) by (auto split: if_splits dest: load_block_start)
  show ?thesis
  proof (cases "Some coff \<noteq> r_block_start_offset self")
    case True
    with assms(2) have "load_block z self (Some coff) = Return () s" by simp
    with True st assms(3) show ?thesis
      by (simp add: BgzfReader_seek_def Let_def c u not_le)
  next
    case False
    with assms(2) have "s = self" by simp
    with False st assms(3) show ?thesis
      by (simp add: BgzfReader_seek_def Let_def c u not_le)
  qed
qed

theorem seek_within_block_witness:
  "BgzfReader_seek stored_zlib example_reader 0 = Return 0 example_reader
   \<and> BgzfReader_seek stored_zlib example_reader 1 = Raise ValueError example_reader
   \<and> r_block_start_offset example_reader = Some 0"
  using seek_within_block [of 0 0 0 example_reader stored_zlib example_reader "[0x41]"]
    seek_within_block [of 1 0 1 example_reader stored_zlib example_reader "[0x41]"]
  by (simp add: split_virtual_offset_arith example_reader_def)

text \<open>
  The claim as stated accepts \<open>uoff \<le> len buffer\<close>. On the example reader, whose
  block at 0 holds one byte, \<open>seek 1\<close> has \<open>uoff = 1 = len buffer\<close> and raises.
\<close>

theorem seek_to_block_end_counterexample:
  "split_virtual_offset 1 = (0, 1)
   \<and> r_block_start_offset example_reader = Some 0
   \<and> r_buffer example_reader = Some [0x41]
   \<and> (1 :: int) \<le> int (length [0x41 :: byte])
   \<and> BgzfReader_seek stored_zlib example_reader 1 = Raise ValueError example_reader"
  by (simp add: split_virtual_offset_arith BgzfReader_seek_def example_reader_def)

section \<open>Claims about the block encoder\<close>

text \<open>
  \<open>struct.pack\<close> and \<open>struct.unpack\<close> are modelled as Python 2.7 has them: packing a
  value outside the range of its format raises \<open>struct.error\<close>, and unpacking gives
  the packed value back.
\<close>

lemma uint_byte_of_int: "uint (word_of_int v :: byte) = v mod 256"
  by (simp add: uint_word_of_int take_bit_eq_mod)

lemma le_bytes_4:
  assumes "0 \<le> v" and "v \<le> 4294967295"
  shows "v mod 256 + 256 * (v div 256 mod 256) + 65536 * (v div 65536 mod 256)
      + 16777216 * (v div 16777216 mod 256) = (v :: int)"
proof -
  define q1 q2 q3 where "q1 = v div 256" and "q2 = q1 div 256" and "q3 = q2 div 256"
  define r0 r1 r2 where "r0 = v mod 256" and "r1 = q1 mod 256" and "r2 = q2 mod 256"
  have a: "v div 65536 = q2"
    unfolding q1_def q2_def by (simp only: zdiv_zmult2_eq [symmetric]) simp
  have b: "v div 16777216 = q3"
    unfolding q1_def q2_def q3_def by (simp only: zdiv_zmult2_eq [symmetric]) simp
  have 1: "v = 256 * q1 + r0" and 2: "q1 = 256 * q2 + r1" and 3: "q2 = 256 * q3 + r2"
    unfolding q1_def q2_def q3_def r0_def r1_def r2_def by simp_all
  have r: "0 \<le> r0" "0 \<le> r1" "0 \<le> r2" "r0 < 256" "r1 < 256" "r2 < 256"
    unfolding r0_def r1_def r2_def by simp_all
  have "0 \<le> q3" and "q3 < 256"
    using assms 1 2 3 r by linarith+
  then have c: "q3 mod 256 = q3"
    by simp
  have "r0 + 256 * r1 + 65536 * r2 + 16777216 * q3 = v"
    using 1 2 3 by linarith
  then show ?thesis
    unfolding a b c q1_def [symmetric] using r0_def r1_def r2_def q1_def by simp
qed


lemma pack_unpack_H: "struct_pack_H v = Inr s \<Longrightarrow> struct_unpack_H s = Inr v \<and> length s = 2"
  by (auto simp: struct_pack_H_def struct_unpack_H_def uint_byte_of_int split: if_splits)

lemma pack_unpack_I:
  assumes "struct_pack_I v = Inr s"
  shows "struct_unpack_I s = Inr v \<and> length s = 4"
proof -
  from assms have r: "0 \<le> v" "v \<le> 4294967295"
    and s: "s = [word_of_int v, word_of_int (v div 256), word_of_int (v div 65536),
                 word_of_int (v div 16777216)]"
    by (auto simp: struct_pack_I_def split: if_splits)
  show ?thesis
    unfolding s struct_unpack_I_def
    by (simp only: list.case uint_byte_of_int le_bytes_4 [OF r]) simp
qed

lemma pack_i_length: "struct_pack_i v = Inr s \<Longrightarrow> length s = 4"
  by (auto simp: struct_pack_i_def split: if_splits)

lemma on_w_handle_tell:
  "on_w_handle file_tell self =
     (if closed (w_handle self) then Raise ValueError self
      else Return (int (position (w_handle self))) self)"
  by (simp add: on_w_handle_def file_tell_def)

lemma write_block_too_large:
  assumes "compress z (compresslevel self) block = Inr c" and "65536 < length c + 26"
  shows "\<exists>e. write_block z self block = Raise e self"
proof -
  have "struct_pack_H (int (length c) + 25) = Inl StructError"
    using assms(2) by (simp add: struct_pack_H_def)
  then show ?thesis
    using assms(1)
    by (auto simp: write_block_def on_w_handle_tell Let_def obind_def olift_def
             split: sum.splits)
qed

lemma write_block_Return:
  assumes "write_block z self block = Return u self'"
  shows "\<exists>c bsize crc isize.
      compress z (compresslevel self) block = Inr c
      \<and> length block \<le> 65536
      \<and> struct_pack_H (int (length c) + 25) = Inr bsize
      \<and> struct_pack_I (crc32 z block AND 0xffffffff) = Inr crc
      \<and> struct_pack_I (int (length block)) = Inr isize
      \<and> (if crc32 z block < 0 then struct_pack_i (crc32 z block)
          else struct_pack_I (crc32 z block)) \<noteq> Inl StructError
      \<and> \<not> closed (w_handle self)
      \<and> file_write (w_handle self) (bgzf_header @ bsize @ c @ crc @ isize)
          = Return () (w_handle self')
      \<and> self' = self\<lparr>w_handle := w_handle self'\<rparr>"
  using assms
  by (auto simp: write_block_def on_w_handle_def file_tell_def Let_def
           elim!: obind_ReturnE olift_ReturnE split: if_splits outcome.splits)


definition example_sink :: pyfile where
  "example_sink = \<lparr>contents = [], position = 0, closed = False, fmode = ''wb''\<rparr>"

definition example_writer :: BgzfWriter where
  "example_writer =
     \<lparr>w_text = False, w_handle = example_sink, w_buffer = [], compresslevel = 0\<rparr>"

lemma length_stored_deflate: "length s + 5 \<le> length (stored_deflate s)"
proof (induction s rule: stored_deflate.induct)
  case (1 s)
  show ?case
  proof (cases "length s \<le> 65535")
    case True
    then show ?thesis by (subst stored_deflate.simps) simp
  next
    case False
    with 1 show ?thesis by (subst stored_deflate.simps) simp
  qed
qed

text \<open>
  C7. When the compressed data \<open>c\<close> of a block has \<open>len c + 26 > 65536\<close>,
  \<open>_write_block\<close> raises and leaves the writer, and with it the file, unchanged: from
  65536 bytes on the assertion \<open>len(compressed) < 65536\<close> fails, and from 65511 to 65535
  bytes \<open>struct.pack("<H", len(compressed) + 25)\<close> raises. When \<open>_write_block\<close>
  returns, it has written exactly one string of \<open>len c + 26\<close> bytes, at most 65536, whose
  size field (bytes 16 and 17) holds that length minus 1.
\<close>

theorem write_block_size_limit:
  "(compress z (compresslevel self) block = Inr c \<and> 65536 < length c + 26 \<longrightarrow>
      (\<exists>e. write_block z self block = Raise e self))
   \<and> (write_block z self block = Return u self' \<longrightarrow>
      (\<exists>c data. compress z (compresslevel self) block = Inr c
         \<and> file_write (w_handle self) data = Return () (w_handle self')
         \<and> length data = length c + 26 \<and> length data \<le> 65536
         \<and> struct_unpack_H (take 2 (drop 16 data)) = Inr (int (length data) - 1)))"
proof (intro conjI impI)
  assume "compress z (compresslevel self) block = Inr c \<and> 65536 < length c + 26"
  then show "\<exists>e. write_block z self block = Raise e self"
    using write_block_too_large by blast
next
  assume "write_block z self block = Return u self'"
  from write_block_Return [OF this] obtain c bsize crc isize where
    c: "compress z (compresslevel self) block = Inr c" and
    b: "struct_pack_H (int (length c) + 25) = Inr bsize" and
    k: "struct_pack_I (crc32 z block AND 0xffffffff) = Inr crc" and
    i: "struct_pack_I (int (length block)) = Inr isize" and
    w: "file_write (w_handle self) (bgzf_header @ bsize @ c @ crc @ isize)
          = Return () (w_handle self')"
    by blast
  let ?data = "bgzf_header @ bsize @ c @ crc @ isize"
  have lens: "length bsize = 2" "length crc = 4" "length isize = 4"
    and ub: "struct_unpack_H bsize = Inr (int (length c) + 25)"
    using pack_unpack_H [OF b] pack_unpack_I [OF k] pack_unpack_I [OF i] by simp_all
  have hl: "length bgzf_header = 16"
    by (simp add: bgzf_header_def)
  have len: "length ?data = length c + 26"
    using lens hl by simp
  have small: "length ?data \<le> 65536"
    using b len by (simp add: struct_pack_H_def split: if_splits)
  have "struct_unpack_H (take 2 (drop 16 ?data)) = Inr (int (length ?data) - 1)"
    using ub lens hl len by simp
  with c w len small show "\<exists>c data. compress z (compresslevel self) block = Inr c
         \<and> file_write (w_handle self) data = Return () (w_handle self')
         \<and> length data = length c + 26 \<and> length data \<le> 65536
         \<and> struct_unpack_H (take 2 (drop 16 data)) = Inr (int (length data) - 1)"
    by blast
qed

lemmas writer_eval_simps =
  write_block_def on_w_handle_def file_tell_def file_write_def file_flush_def file_close_def
  struct_pack_H_def struct_pack_I_def struct_pack_i_def stored_zlib_def stored_deflate.simps
  crc32_signed_def crc32_byte_def crc32_step_def bgzf_header_def Let_def

lemma example_write_block:
  "write_block stored_zlib example_writer [0x41] =
     Return () (example_writer\<lparr>w_handle := example_sink\<lparr>contents := take 32 example_bgzf,
       position := 32\<rparr>\<rparr>)"
  by (simp add: example_writer_def example_sink_def example_bgzf_def writer_eval_simps)

definition incompressible_block :: bytes where
  "incompressible_block = replicate 65536 0"

lemma length_incompressible_block: "length incompressible_block = 65536"
  by (simp add: incompressible_block_def)

theorem write_block_size_limit_witness:
  "(\<exists>e. write_block stored_zlib example_writer incompressible_block = Raise e example_writer)
   \<and> (\<exists>c data. compress stored_zlib 0 [0x41] = Inr c
         \<and> file_write example_sink data
             = Return () (example_sink\<lparr>contents := take 32 example_bgzf, position := 32\<rparr>)
         \<and> length data = length c + 26 \<and> length data \<le> 65536
         \<and> struct_unpack_H (take 2 (drop 16 data)) = Inr (int (length data) - 1))"
proof -
  have big: "compress stored_zlib (compresslevel example_writer) incompressible_block
        = Inr (stored_deflate incompressible_block)
      \<and> 65536 < length (stored_deflate incompressible_block) + 26"
    using length_stored_deflate [of incompressible_block]
    by (simp add: stored_zlib_def length_incompressible_block)
  have 1: "\<exists>e. write_block stored_zlib example_writer incompressible_block
      = Raise e example_writer"
    using write_block_size_limit [of stored_zlib example_writer incompressible_block
        "stored_deflate incompressible_block" "()" example_writer] big
    by blast
  have w: "compresslevel example_writer = 0" "w_handle example_writer = example_sink"
    by (simp_all add: example_writer_def)
  have 2: "\<exists>c data. compress stored_zlib 0 [0x41] = Inr c
         \<and> file_write example_sink data
             = Return () (example_sink\<lparr>contents := take 32 example_bgzf, position := 32\<rparr>)
         \<and> length data = length c + 26 \<and> length data \<le> 65536
         \<and> struct_unpack_H (take 2 (drop 16 data)) = Inr (int (length data) - 1)"
    using write_block_size_limit [of stored_zlib example_writer "[0x41]" "[]" "()"
        "example_writer\<lparr>w_handle := example_sink\<lparr>contents := take 32 example_bgzf,
           position := 32\<rparr>\<rparr>"] example_write_block
    by (simp add: w)
  from 1 2 show ?thesis by blast
qed

section \<open>Round trip: what the writer writes, the block decoder reads\<close>

lemma load_bgzf_block_advances:
  assumes "load_bgzf_block z h t = Return r h'"
  shows "contents h' = contents h \<and> position h < position h'
    \<and> position h < length (contents h)"
proof -
  from assms obtain magic h1 where
    r1: "file_read h 4 = Return magic h1" and
    k: "(if magic = [] then Raise StopIteration h1
         else if magic \<noteq> bgzf_magic then Raise ValueError h1
         else
       obind (file_read h1 4) (\<lambda>gzip_mod_time handle.
       obind (file_read handle 1) (\<lambda>gzip_extra_flags handle.
       obind (file_read handle 1) (\<lambda>gzip_os handle.
       obind (file_read handle 2) (\<lambda>s handle.
       obind (olift (struct_unpack_H s) handle) (\<lambda>extra_len handle.
       obind (read_subfields handle extra_len 0 None) (\<lambda>(x_len, block_size) handle.
         if x_len \<noteq> extra_len then Raise AssertionError handle
         else case block_size of
           None \<Rightarrow> Raise AssertionError handle
         | Some block_size \<Rightarrow>
             let deflate_size = block_size - 1 - extra_len - 19 in
             obind (file_read handle deflate_size) (\<lambda>cdata handle.
             obind (olift (decompress z cdata) handle) (\<lambda>data handle.
             obind (file_read handle 4) (\<lambda>expected_crc handle.
             obind (file_read handle 4) (\<lambda>s handle.
             obind (olift (struct_unpack_I s) handle) (\<lambda>expected_size handle.
               if expected_size \<noteq> int (length data) then Raise AssertionError handle
               else
                 let crc = crc32 z data in
                 obind (olift (if crc < 0 then struct_pack_i crc else struct_pack_I crc) handle)
                   (\<lambda>crc handle.
                     if expected_crc \<noteq> crc then Raise AssertionError handle
                     else Return (block_size, data) handle)))))))))))))
       = Return r h'"
    unfolding load_bgzf_block_def by (rule obind_ReturnE)
  from k have m: "magic = bgzf_magic"
    by (auto split: if_splits)
  have l: "length magic = 4"
    by (simp add: m bgzf_magic_def)
  from file_read_Return [OF r1] l have p1: "contents h1 = contents h"
    "position h1 = position h + 4" "position h + 4 \<le> max (position h) (length (contents h))"
    by simp_all
  from k m have "advances h1 h'"
    apply (simp add: bgzf_magic_def Let_def)
    apply (elim obind_ReturnE olift_ReturnE)
    apply (auto simp: Let_def split: if_splits option.splits prod.splits
        elim!: obind_ReturnE olift_ReturnE
        dest!: file_read_advances read_subfields_advances)
    apply (auto simp: advances_def)
    done
  with p1 show ?thesis
    by (auto simp: advances_def)
qed

text \<open>
  \<open>decode_blocks\<close> applies \<open>_load_bgzf_block\<close> again and again from the position of
  the file, as the loop of \<open>BgzfBlocks\<close> does, until a call raises; it returns the
  blocks read (raw length and data), the exception that ended the loop and the file.
  Every successful call moves the file forward, so the loop ends.
\<close>

function decode_blocks :: "zlib \<Rightarrow> pyfile \<Rightarrow> (int \<times> bytes) list \<times> py_error \<times> pyfile" where
  "decode_blocks z handle =
     (case load_bgzf_block z handle False of
        Raise e h \<Rightarrow> ([], e, h)
      | Return block h \<Rightarrow>
          (case decode_blocks z h of (blocks, e, h') \<Rightarrow> (block # blocks, e, h')))"
  by pat_completeness auto
termination
  by (relation "measure (\<lambda>(z, handle). length (contents handle) - position handle)")
     (auto dest!: load_bgzf_block_advances)

declare decode_blocks.simps [simp del]

definition remaining :: "pyfile \<Rightarrow> bytes" where
  "remaining h = drop (position h) (contents h)"

definition skip :: "pyfile \<Rightarrow> nat \<Rightarrow> pyfile" where
  "skip h k = h\<lparr>position := position h + k\<rparr>"

lemma skip_simps [simp]:
  "remaining (skip h k) = drop k (remaining h)"
  "closed (skip h k) = closed h"
  "contents (skip h k) = contents h"
  "position (skip h k) = position h + k"
  "skip (skip h a) b = skip h (a + b)"
  "skip h 0 = h"
  by (simp_all add: remaining_def skip_def add.commute)

lemma file_read_remaining:
  "\<not> closed h \<Longrightarrow> 0 \<le> n \<Longrightarrow>
     file_read h n = Return (take (nat n) (remaining h))
       (skip h (length (take (nat n) (remaining h))))"
  by (simp add: file_read_def remaining_def skip_def Let_def)

lemma byte_of_masked:
  "(word_of_int (v AND 0xffffffff) :: byte) = word_of_int v"
  "(word_of_int ((v AND 0xffffffff) div 256) :: byte) = word_of_int (v div 256)"
  "(word_of_int ((v AND 0xffffffff) div 65536) :: byte) = word_of_int (v div 65536)"
  "(word_of_int ((v AND 0xffffffff) div 16777216) :: byte) = word_of_int (v div 16777216)"
proof -
  have m: "v AND 0xffffffff = take_bit 32 v"
    by (simp add: take_bit_eq_mask mask_eq_exp_minus_1)
  have d: "\<And>x :: int. x div 256 = drop_bit 8 x" "\<And>x :: int. x div 65536 = drop_bit 16 x"
    "\<And>x :: int. x div 16777216 = drop_bit 24 x"
    by (simp_all add: drop_bit_eq_div)
  show "(word_of_int (v AND 0xffffffff) :: byte) = word_of_int v"
    unfolding m by (rule bit_word_eqI) (auto simp: bit_simps)
  show "(word_of_int ((v AND 0xffffffff) div 256) :: byte) = word_of_int (v div 256)"
    unfolding m d by (rule bit_word_eqI) (auto simp: bit_simps)
  show "(word_of_int ((v AND 0xffffffff) div 65536) :: byte) = word_of_int (v div 65536)"
    unfolding m d by (rule bit_word_eqI) (auto simp: bit_simps)
  show "(word_of_int ((v AND 0xffffffff) div 16777216) :: byte) = word_of_int (v div 16777216)"
    unfolding m d by (rule bit_word_eqI) (auto simp: bit_simps)
qed

lemma crc_pack_agree:
  assumes "struct_pack_I (v AND 0xffffffff) = Inr crc"
    and "(if v < 0 then struct_pack_i v else struct_pack_I v) \<noteq> Inl StructError"
  shows "(if v < 0 then struct_pack_i v else struct_pack_I v) = Inr crc"
  using assms
  by (auto simp: struct_pack_I_def struct_pack_i_def byte_of_masked split: if_splits)


lemma load_encoded_block:
  assumes op: "\<not> closed h"
    and rem: "remaining h = bgzf_header @ bsize @ c @ crc @ isize @ rest"
    and b: "struct_pack_H (int (length c) + 25) = Inr bsize"
    and k: "struct_pack_I (crc32 z block AND 0xffffffff) = Inr crc"
    and i: "struct_pack_I (int (length block)) = Inr isize"
    and ok: "(if crc32 z block < 0 then struct_pack_i (crc32 z block)
             else struct_pack_I (crc32 z block)) \<noteq> Inl StructError"
    and d: "decompress z c = Inr block"
  shows "load_bgzf_block z h t = Return (int (length c) + 26, block) (skip h (length c + 26))"
proof -
  obtain b0 b1 where bs: "bsize = [b0, b1]"
    using b by (auto simp: struct_pack_H_def split: if_splits)
  obtain k0 k1 k2 k3 where ks: "crc = [k0, k1, k2, k3]"
    using k by (auto simp: struct_pack_I_def split: if_splits)
  obtain i0 i1 i2 i3 where iz: "isize = [i0, i1, i2, i3]"
    using i by (auto simp: struct_pack_I_def split: if_splits)
  have ub: "struct_unpack_H [b0, b1] = Inr (int (length c) + 25)"
    using pack_unpack_H [OF b] bs by simp
  have ui: "struct_unpack_I [i0, i1, i2, i3] = Inr (int (length block))"
    using pack_unpack_I [OF i] iz by simp
  have ck: "(if crc32 z block < 0 then struct_pack_i (crc32 z block)
             else struct_pack_I (crc32 z block)) = Inr [k0, k1, k2, k3]"
    using crc_pack_agree [OF k ok] ks by simp
  have u6: "struct_unpack_H [6, 0] = Inr 6" "struct_unpack_H [2, 0] = Inr 2"
    by (simp_all add: struct_unpack_H_def)
  have rem': "remaining h = 0x1f # 0x8b # 0x08 # 0x04 # 0 # 0 # 0 # 0 # 0 # 0xff # 0x06 # 0
      # 0x42 # 0x43 # 0x02 # 0 # b0 # b1 # c @ k0 # k1 # k2 # k3 # i0 # i1 # i2 # i3 # rest"
    using rem by (simp add: bgzf_header_def bs ks iz)
  show ?thesis
    unfolding load_bgzf_block_def
    by (simp add: file_read_remaining op rem' bgzf_magic_def bytes_BC_def u6 ub ui d
        read_subfields.simps Let_def ck, rule arg_cong [where f = "skip h"], simp)
qed

lemma load_eof_block:
  assumes "\<not> closed h" and "remaining h = bgzf_eof @ rest"
    and "decompress z [3, 0] = Inr []" and "crc32 z [] = 0"
  shows "load_bgzf_block z h t = Return (28, []) (skip h 28)"
proof -
  have u: "struct_unpack_H [6, 0] = Inr 6" "struct_unpack_H [2, 0] = Inr 2"
    "struct_unpack_H [0x1b, 0] = Inr 27" "struct_unpack_I [0, 0, 0, 0] = Inr 0"
    "struct_pack_I 0 = Inr [0, 0, 0, 0]"
    by (simp_all add: struct_unpack_H_def struct_unpack_I_def struct_pack_I_def)
  show ?thesis
    unfolding load_bgzf_block_def using assms
    by (simp add: file_read_remaining bgzf_eof_def bgzf_magic_def bytes_BC_def u
        read_subfields.simps Let_def, intro arg_cong [where f = "skip h"], simp)
qed

lemma load_at_end:
  assumes "\<not> closed h" and "remaining h = []"
  shows "load_bgzf_block z h t = Raise StopIteration h"
  unfolding load_bgzf_block_def using assms
  by (simp add: file_read_remaining)

definition is_block_of :: "zlib \<Rightarrow> int \<Rightarrow> bytes \<Rightarrow> bytes \<Rightarrow> bool" where
  "is_block_of z level block data \<longleftrightarrow>
     (\<exists>c bsize crc isize.
        compress z level block = Inr c
        \<and> struct_pack_H (int (length c) + 25) = Inr bsize
        \<and> struct_pack_I (crc32 z block AND 0xffffffff) = Inr crc
        \<and> struct_pack_I (int (length block)) = Inr isize
        \<and> (if crc32 z block < 0 then struct_pack_i (crc32 z block)
            else struct_pack_I (crc32 z block)) \<noteq> Inl StructError
        \<and> data = bgzf_header @ bsize @ c @ crc @ isize)"

definition lossless :: "zlib \<Rightarrow> int \<Rightarrow> bool" where
  "lossless z level \<longleftrightarrow>
     (\<forall>block c. compress z level block = Inr c \<longrightarrow> decompress z c = Inr block)"

lemma decode_one:
  assumes "is_block_of z level block data" and "lossless z level"
    and "\<not> closed h" and "remaining h = data @ rest"
  shows "load_bgzf_block z h t = Return (int (length data), block) (skip h (length data))"
proof -
  from assms(1) obtain c bsize crc isize where
    c: "compress z level block = Inr c" and
    b: "struct_pack_H (int (length c) + 25) = Inr bsize" and
    k: "struct_pack_I (crc32 z block AND 0xffffffff) = Inr crc" and
    i: "struct_pack_I (int (length block)) = Inr isize" and
    ok: "(if crc32 z block < 0 then struct_pack_i (crc32 z block)
          else struct_pack_I (crc32 z block)) \<noteq> Inl StructError" and
    data: "data = bgzf_header @ bsize @ c @ crc @ isize"
    unfolding is_block_of_def by blast
  have d: "decompress z c = Inr block"
    using assms(2) c by (simp add: lossless_def)
  have len: "length data = length c + 26"
    using pack_unpack_H [OF b] pack_unpack_I [OF k] pack_unpack_I [OF i]
    by (simp add: data bgzf_header_def)
  have rem: "remaining h = bgzf_header @ bsize @ c @ crc @ isize @ rest"
    using assms(4) by (simp add: data)
  show ?thesis
    using load_encoded_block [OF assms(3) rem b k i ok d] len by simp
qed

lemma decode_blocks_written:
  assumes "list_all2 (is_block_of z level) chunks encs" and "lossless z level"
    and "decompress z [3, 0] = Inr []" and "crc32 z [] = 0"
    and "\<not> closed h" and "remaining h = concat encs @ bgzf_eof"
  shows "decode_blocks z h =
      (map2 (\<lambda>chunk enc. (int (length enc), chunk)) chunks encs @ [(28, [])],
       StopIteration, skip h (length (concat encs) + 28))"
  using assms(1, 5, 6)
proof (induction chunks encs arbitrary: h rule: list_all2_induct)
  case Nil
  then have 1: "load_bgzf_block z h False = Return (28, []) (skip h 28)"
    using load_eof_block [of h "[]" z False] assms(3, 4) by simp
  have "remaining (skip h 28) = []"
    using Nil by (simp add: bgzf_eof_def)
  then have 2: "load_bgzf_block z (skip h 28) False = Raise StopIteration (skip h 28)"
    using load_at_end [of "skip h 28"] Nil by simp
  show ?case
    by (subst decode_blocks.simps, simp add: 1, subst decode_blocks.simps, simp add: 2)
next
  case (Cons chunk chunks enc encs)
  have 1: "load_bgzf_block z h False = Return (int (length enc), chunk) (skip h (length enc))"
    using decode_one [OF Cons.hyps(1) assms(2) Cons.prems(1), of "concat encs @ bgzf_eof"]
      Cons.prems(2) by simp
  have "remaining (skip h (length enc)) = concat encs @ bgzf_eof"
    using Cons.prems(2) by simp
  from Cons.IH [OF _ this] Cons.prems(1)
  have 2: "decode_blocks z (skip h (length enc)) =
      (map2 (\<lambda>chunk enc. (int (length enc), chunk)) chunks encs @ [(28, [])],
       StopIteration, skip (skip h (length enc)) (length (concat encs) + 28))"
    by simp
  show ?case
    by (subst decode_blocks.simps) (simp add: 1 2 add.assoc)
qed

definition written :: "zlib \<Rightarrow> bytes \<Rightarrow> BgzfWriter \<Rightarrow> bytes \<Rightarrow> bool" where
  "written z base w B \<longleftrightarrow>
     (\<exists>chunks encs.
        list_all2 (is_block_of z (compresslevel w)) chunks encs
        \<and> contents (w_handle w) = base @ concat encs
        \<and> position (w_handle w) = length (contents (w_handle w))
        \<and> \<not> closed (w_handle w)
        \<and> concat chunks @ w_buffer w = B)"

lemma file_write_at_end:
  assumes "file_write h s = Return u h'" and "position h = length (contents h)"
  shows "contents h' = contents h @ s \<and> position h' = length (contents h')
    \<and> closed h' = closed h \<and> \<not> closed h"
  using assms by (auto simp: file_write_def Let_def split: if_splits)

lemma write_block_written:
  assumes "written z base w (B @ block @ rest)" and "w_buffer w = block @ rest"
    and "write_block z w block = Return u w'"
  shows "written z base (w'\<lparr>w_buffer := rest\<rparr>) (B @ block @ rest)
    \<and> compresslevel w' = compresslevel w \<and> w_buffer w' = w_buffer w"
proof -
  from assms(1, 2) obtain chunks encs where
    l: "list_all2 (is_block_of z (compresslevel w)) chunks encs" and
    c: "contents (w_handle w) = base @ concat encs" and
    p: "position (w_handle w) = length (contents (w_handle w))" and
    b: "concat chunks = B"
    unfolding written_def by auto
  from write_block_Return [OF assms(3)] obtain c' bsize crc isize where
    w: "compress z (compresslevel w) block = Inr c'"
      "struct_pack_H (int (length c') + 25) = Inr bsize"
      "struct_pack_I (crc32 z block AND 0xffffffff) = Inr crc"
      "struct_pack_I (int (length block)) = Inr isize"
      "(if crc32 z block < 0 then struct_pack_i (crc32 z block)
        else struct_pack_I (crc32 z block)) \<noteq> Inl StructError" and
    fw: "file_write (w_handle w) (bgzf_header @ bsize @ c' @ crc @ isize)
          = Return () (w_handle w')" and
    w': "w' = w\<lparr>w_handle := w_handle w'\<rparr>"
    by blast
  let ?enc = "bgzf_header @ bsize @ c' @ crc @ isize"
  have e: "is_block_of z (compresslevel w) block ?enc"
    unfolding is_block_of_def using w by blast
  have same: "compresslevel w' = compresslevel w" "w_buffer w' = w_buffer w"
    by (subst w', simp)+
  have l': "list_all2 (is_block_of z (compresslevel w)) (chunks @ [block]) (encs @ [?enc])"
    using l e by (simp add: list_all2_appendI)
  have "written z base (w'\<lparr>w_buffer := rest\<rparr>) (B @ block @ rest)"
    unfolding written_def
    using l' file_write_at_end [OF fw p] c b same
    by (intro exI [of _ "chunks @ [block]"] exI [of _ "encs @ [?enc]"]) simp
  with same show ?thesis by simp
qed

lemma write_loop_written:
  "written z base w B \<Longrightarrow> write_loop z w = Return u w' \<Longrightarrow>
     written z base w' B \<and> length (w_buffer w') < 65536
     \<and> compresslevel w' = compresslevel w"
proof (induction z w arbitrary: u w' rule: write_loop.induct)
  case (1 z self)
  show ?case
  proof (cases "65536 \<le> length (w_buffer self)")
    case False
    then have "write_loop z self = Return () self"
      by (subst write_loop.simps) simp
    with "1.prems" False show ?thesis
      by simp
  next
    case True
    let ?block = "take 65536 (w_buffer self)" and ?rest = "drop 65536 (w_buffer self)"
    have "write_loop z self = obind (write_block z self ?block) (\<lambda>_ self.
          write_loop z (self\<lparr>w_buffer := drop 65536 (w_buffer self)\<rparr>))"
      using True by (subst write_loop.simps) simp
    with "1.prems"(2) obtain v s1 where
      wb: "write_block z self ?block = Return v s1" and
      lp: "write_loop z (s1\<lparr>w_buffer := drop 65536 (w_buffer s1)\<rparr>) = Return u w'"
      by (auto elim: obind_ReturnE)
    from "1.prems"(1) obtain B0 where B: "B = B0 @ ?block @ ?rest"
      unfolding written_def by (metis append_take_drop_id)
    have step: "written z base (s1\<lparr>w_buffer := ?rest\<rparr>) B"
      "compresslevel s1 = compresslevel self" "w_buffer s1 = w_buffer self"
      using write_block_written [OF _ _ wb, of base B0 ?rest] "1.prems"(1) B by simp_all
    from "1.IH" [OF True wb _ lp] step show ?thesis
      by simp
  qed
qed

lemma flush_loop_written:
  "written z base w B \<Longrightarrow> flush_loop z w = Return u w' \<Longrightarrow>
     written z base w' B \<and> length (w_buffer w') < 65536
     \<and> compresslevel w' = compresslevel w"
proof (induction z w arbitrary: u w' rule: flush_loop.induct)
  case (1 z self)
  show ?case
  proof (cases "65536 \<le> length (w_buffer self)")
    case False
    then have "flush_loop z self = Return () self"
      by (subst flush_loop.simps) simp
    with "1.prems" False show ?thesis
      by simp
  next
    case True
    let ?block = "take 65535 (w_buffer self)" and ?rest = "drop 65535 (w_buffer self)"
    have "flush_loop z self = obind (write_block z self ?block) (\<lambda>_ self.
          flush_loop z (self\<lparr>w_buffer := drop 65535 (w_buffer self)\<rparr>))"
      using True by (subst flush_loop.simps) simp
    with "1.prems"(2) obtain v s1 where
      wb: "write_block z self ?block = Return v s1" and
      lp: "flush_loop z (s1\<lparr>w_buffer := drop 65535 (w_buffer s1)\<rparr>) = Return u w'"
      by (auto elim: obind_ReturnE)
    from "1.prems"(1) obtain B0 where B: "B = B0 @ ?block @ ?rest"
      unfolding written_def by (metis append_take_drop_id)
    have step: "written z base (s1\<lparr>w_buffer := ?rest\<rparr>) B"
      "compresslevel s1 = compresslevel self" "w_buffer s1 = w_buffer self"
      using write_block_written [OF _ _ wb, of base B0 ?rest] "1.prems"(1) B by simp_all
    from "1.IH" [OF True wb _ lp] step show ?thesis
      by simp
  qed
qed

lemma written_append:
  "written z base w B \<Longrightarrow> written z base (w\<lparr>w_buffer := w_buffer w @ d\<rparr>) (B @ d)"
  unfolding written_def by auto

lemma BgzfWriter_write_written:
  assumes "written z base w B" and "BgzfWriter_write z w d = Return u w'"
  shows "written z base w' (B @ d) \<and> length (w_buffer w') < 65536
    \<and> compresslevel w' = compresslevel w"
proof (cases "length (w_buffer w) + length d < 65536")
  case True
  with assms(2) have "w' = w\<lparr>w_buffer := w_buffer w @ d\<rparr>"
    by (simp add: BgzfWriter_write_def Let_def)
  with True written_append [OF assms(1)] show ?thesis
    by simp
next
  case False
  with assms(2) have "write_loop z (w\<lparr>w_buffer := w_buffer w @ d\<rparr>) = Return u w'"
    by (simp add: BgzfWriter_write_def Let_def)
  from write_loop_written [OF written_append [OF assms(1)] this] show ?thesis
    by simp
qed

lemma BgzfWriter_flush_written:
  assumes "written z base w B" and "BgzfWriter_flush z w = Return u w'"
  shows "written z base w' B \<and> w_buffer w' = [] \<and> compresslevel w' = compresslevel w"
proof -
  from assms(2) obtain v1 s1 v2 s2 where
    fl: "flush_loop z w = Return v1 s1" and
    wb: "write_block z s1 (w_buffer s1) = Return v2 s2" and
    ff: "on_w_handle file_flush (s2\<lparr>w_buffer := []\<rparr>) = Return u w'"
    unfolding BgzfWriter_flush_def by (auto elim!: obind_ReturnE)
  from flush_loop_written [OF assms(1) fl]
  have 1: "written z base s1 B" "compresslevel s1 = compresslevel w"
    by simp_all
  then obtain B0 where B: "B = B0 @ w_buffer s1 @ []"
    unfolding written_def by auto
  from write_block_written [OF _ _ wb, of base B0 "[]"] 1 B
  have 2: "written z base (s2\<lparr>w_buffer := []\<rparr>) B" "compresslevel s2 = compresslevel s1"
    by simp_all
  from ff have "w' = s2\<lparr>w_buffer := []\<rparr>"
    by (auto simp: on_w_handle_def file_flush_def split: if_splits)
  with 1 2 show ?thesis
    by simp
qed

fun write_all :: "zlib \<Rightarrow> BgzfWriter \<Rightarrow> bytes list \<Rightarrow> (unit, BgzfWriter) outcome" where
  "write_all z self [] = Return () self"
| "write_all z self (data # rest) =
     obind (BgzfWriter_write z self data) (\<lambda>_ self. write_all z self rest)"

lemma write_all_written:
  "written z base w B \<Longrightarrow> write_all z w ds = Return u w' \<Longrightarrow>
     written z base w' (B @ concat ds) \<and> compresslevel w' = compresslevel w"
proof (induction ds arbitrary: w B u)
  case Nil
  then show ?case by simp
next
  case (Cons d ds)
  from Cons.prems(2) obtain v s1 where
    1: "BgzfWriter_write z w d = Return v s1" and 2: "write_all z s1 ds = Return u w'"
    by (auto elim: obind_ReturnE)
  from BgzfWriter_write_written [OF Cons.prems(1) 1]
  have "written z base s1 (B @ d)" "compresslevel s1 = compresslevel w"
    by simp_all
  with Cons.IH [OF _ 2, of "B @ d"] show ?case
    by simp
qed

lemma w_buffer_same: "w_buffer w = b \<Longrightarrow> w\<lparr>w_buffer := b\<rparr> = (w :: BgzfWriter)"
  by auto

lemma write_all_nothing:
  "concat ds = [] \<Longrightarrow> w_buffer w = [] \<Longrightarrow> write_all z w ds = Return () w"
  by (induction ds) (simp_all add: BgzfWriter_write_def w_buffer_same)

lemma BgzfWriter_close_written:
  assumes "written z base w B" and "BgzfWriter_close z w = Return u w'"
  shows "\<exists>chunks encs. list_all2 (is_block_of z (compresslevel w)) chunks encs
      \<and> concat chunks = B
      \<and> contents (w_handle w') = base @ concat encs @ bgzf_eof"
proof -
  from assms(2) obtain v1 s1 v2 s2 v3 s3 where
    fl: "(if w_buffer w \<noteq> [] then BgzfWriter_flush z w else Return () w) = Return v1 s1" and
    wr: "on_w_handle (\<lambda>h. file_write h bgzf_eof) s1 = Return v2 s2" and
    ff: "on_w_handle file_flush s2 = Return v3 s3" and
    cl: "on_w_handle file_close s3 = Return u w'"
    unfolding BgzfWriter_close_def by (auto elim!: obind_ReturnE)
  have s1: "written z base s1 B \<and> w_buffer s1 = [] \<and> compresslevel s1 = compresslevel w"
  proof (cases "w_buffer w \<noteq> []")
    case True
    with fl BgzfWriter_flush_written [OF assms(1)] show ?thesis by simp
  next
    case False
    with fl assms(1) show ?thesis by simp
  qed
  then obtain chunks encs where
    l: "list_all2 (is_block_of z (compresslevel w)) chunks encs" and
    c: "contents (w_handle s1) = base @ concat encs" and
    p: "position (w_handle s1) = length (contents (w_handle s1))" and
    b: "concat chunks = B"
    unfolding written_def by auto
  from wr obtain h2 where
    fw: "file_write (w_handle s1) bgzf_eof = Return () h2" and s2: "w_handle s2 = h2"
    by (auto simp: on_w_handle_def split: outcome.splits)
  from ff s2 have s3: "w_handle s3 = h2"
    by (auto simp: on_w_handle_def file_flush_def split: if_splits)
  from cl s3 have "contents (w_handle w') = contents h2"
    by (auto simp: on_w_handle_def file_close_def)
  with file_write_at_end [OF fw p] c have "contents (w_handle w') = base @ concat encs @ bgzf_eof"
    by simp
  with l b show ?thesis by blast
qed

end
